theory Spec2Isabelle
  imports Main "HOL-Library.Sublist"
begin

section \<open>Exceptions\<close>

text \<open>
  Both scripts let every exception travel to the top of the process. The model returns
  the exception as a value: \<open>Inl e\<close> is a raise of \<open>e\<close>, \<open>Inr v\<close> a normal return of \<open>v\<close>.
  \<open>ClientError\<close> stands for any failure reported by the cloud service, \<open>OSError\<close> for
  a failure of the local filesystem.
\<close>

datatype error =
  KeyError | AttributeError | TypeError | NameError | OverflowError | OSError | ClientError

section \<open>s3\_duplicity\_auto\_lifecycle.py\<close>

subsection \<open>Configuration\<close>

text \<open>
  The fields of the global \<open>args\<close> that the functions below read. \<open>verbose\<close>, \<open>bucket\<close>
  and \<open>profile\<close> only select what is printed and which account is addressed.
\<close>

record lifecycle_args =
  duplicity_prefix :: string
  file_prefix_archive :: string
  clean :: bool
  glacier_days :: int
  lifecycle_id_prefix :: string
  noop :: bool

definition default_args :: lifecycle_args where
  "default_args =
     \<lparr>duplicity_prefix = ''duplicity/'', file_prefix_archive = ''archive/'', clean = False,
      glacier_days = 60, lifecycle_id_prefix = ''Duplicity-Auto-Lifecycle'', noop = False\<rparr>"

subsection \<open>The archive-path pattern\<close>

text \<open>
  The pattern is the regular expression
  \<^verbatim>\<open>'{}(.*?)/{}'.format(args.duplicity_prefix, args.file_prefix_archive)\<close>, applied with
  \<open>re.match\<close> (anchored at the start of the subject, free at its end). When neither of
  the two configured strings holds a character with a meaning of its own in a regular
  expression (\<open>plain_pattern\<close>, true of the defaults), the pattern reads: the literal
  duplicity prefix, then the shortest run of characters other than a line feed (group 1)
  after which the literal \<open>/\<close> and the literal archive component follow.
\<close>

definition regex_special :: "char \<Rightarrow> bool" where
  "regex_special c = (c \<in> set ''.^$*+?{}[]|()'' \<or> c = CHR 0x5C)"

definition plain_pattern :: "lifecycle_args \<Rightarrow> bool" where
  "plain_pattern a = (\<forall>c \<in> set (duplicity_prefix a @ file_prefix_archive a). \<not> regex_special c)"

text \<open>
  \<open>lazy_group lit s\<close> is the lazy group \<open>(.*?)\<close> followed by the literal \<open>lit\<close>, run on \<open>s\<close>:
  the literal is tried first; when it does not follow, one more character is taken into
  the group unless it is a line feed, which the dot does not match.
\<close>

fun lazy_group :: "string \<Rightarrow> string \<Rightarrow> string option" where
  "lazy_group lit [] = (if lit = [] then Some [] else None)"
| "lazy_group lit (c # cs) =
     (if prefix lit (c # cs) then Some []
      else if c = CHR 0x0A then None
      else map_option ((#) c) (lazy_group lit cs))"

text \<open>\<open>archive_match a s\<close> is \<open>re.match(pattern, s)\<close>: \<open>None\<close> when there is no match,
  \<open>Some g\<close> with \<open>g = match.group(1)\<close> otherwise.\<close>

definition archive_match :: "lifecycle_args \<Rightarrow> string \<Rightarrow> string option" where
  "archive_match a s =
     (if prefix (duplicity_prefix a) s
      then lazy_group (CHR ''/'' # file_prefix_archive a) (drop (length (duplicity_prefix a)) s)
      else None)"

subsection \<open>Lifecycle rules\<close>

text \<open>
  A rule is the dictionary the service returns. The script reads \<open>rule['Filter']['Prefix']\<close>
  and \<open>rule['ID']\<close>; a key that is absent is \<open>None\<close> here and a \<open>KeyError\<close> where it is read.
  The script writes \<open>ID\<close>, \<open>Filter\<close>, \<open>Status\<close> and \<open>Transitions\<close>. Every other key of a
  dictionary is kept, unread, in its \<open>Rest\<close> field.
\<close>

record lifecycle_filter =
  Prefix :: "string option"
  FilterRest :: "(string \<times> string) list"

record transition =
  Days :: "int option"
  StorageClass :: string
  TransitionRest :: "(string \<times> string) list"

record rule =
  ID :: "string option"
  Filter :: "lifecycle_filter option"
  Status :: string
  Transitions :: "transition list"
  RuleRest :: "(string \<times> string) list"

text \<open>
  What \<open>archives_in_bucket\<close> returns is a list whose elements are strings or, after a
  continuation, lists again.
\<close>

datatype prefix_item = PrefixStr string | PrefixList "prefix_item list"

subsection \<open>archives\_in\_bucket\<close>

text \<open>
  One answer of \<open>list_objects_v2\<close>: the prefixes under \<open>CommonPrefixes\<close> (a key the answer
  may lack) and the token of the next page, when there is one.
\<close>

record list_objects =
  CommonPrefixes :: "string list option"
  NextContinuationToken :: "string option"

text \<open>
  The service is a function from the continuation token sent (\<open>None\<close>: the first request)
  to its answer. \<open>if(token)\<close> is false for the empty string as well as for \<open>None\<close>, and
  the request then carries no token. The recursion follows the tokens the service hands
  out, so it need not end: not returning is the value \<open>None\<close>.
\<close>

partial_function (option) archives_in_bucket ::
  "(string option \<Rightarrow> error + list_objects) \<Rightarrow> string option \<Rightarrow> (error + prefix_item list) option"
where
  "archives_in_bucket s3 token =
     (case s3 (case token of None \<Rightarrow> None | Some t \<Rightarrow> if t = [] then None else Some t) of
        Inl e \<Rightarrow> Some (Inl e)
      | Inr objects \<Rightarrow>
          (case CommonPrefixes objects of
             None \<Rightarrow> Some (Inl KeyError)
           | Some plists \<Rightarrow>
               (case NextContinuationToken objects of
                  None \<Rightarrow> Some (Inr (map PrefixStr plists))
                | Some next_token \<Rightarrow>
                    Option.bind (archives_in_bucket s3 (Some next_token))
                      (\<lambda>r. case r of
                             Inl e \<Rightarrow> Some (Inl e)
                           | Inr nested \<Rightarrow> Some (Inr (map PrefixStr plists @ [PrefixList nested]))))))"

subsection \<open>lifecycle\_update\<close>

text \<open>
  The first loop, one rule at a time: \<open>keep_rule a rule\<close> raises where the loop body
  raises and otherwise tells whether the body appends \<open>rule\<close> to \<open>newrules\<close>. The filter
  prefix is read before the pattern is tried, the identifier only after a match.
\<close>

definition keep_rule :: "lifecycle_args \<Rightarrow> rule \<Rightarrow> error + bool" where
  "keep_rule a rule =
     (case Filter rule of
        None \<Rightarrow> Inl KeyError
      | Some f \<Rightarrow>
          (case Prefix f of
             None \<Rightarrow> Inl KeyError
           | Some p \<Rightarrow>
               (case archive_match a p of
                  Some g \<Rightarrow>
                    (case ID rule of
                       None \<Rightarrow> Inl KeyError
                     | Some i \<Rightarrow>
                         if \<not> prefix (lifecycle_id_prefix a) i
                         then (if clean a then Inr False else Inr True)
                         else Inr False)
                | None \<Rightarrow> Inr True)))"

fun preserve_rules :: "lifecycle_args \<Rightarrow> rule list \<Rightarrow> rule list \<Rightarrow> error + rule list" where
  "preserve_rules a [] newrules = Inr newrules"
| "preserve_rules a (rule # rules) newrules =
     (case keep_rule a rule of
        Inl e \<Rightarrow> Inl e
      | Inr keep \<Rightarrow> preserve_rules a rules (if keep then newrules @ [rule] else newrules))"

text \<open>
  The second loop. \<open>re.match\<close> on an element that is not a string raises \<open>TypeError\<close>;
  \<open>.group(1)\<close> on a failed match raises \<open>AttributeError\<close>; both are printed and raised
  again.
\<close>

definition newrule :: "lifecycle_args \<Rightarrow> string \<Rightarrow> string \<Rightarrow> rule" where
  "newrule a archive archive_name =
     \<lparr>ID = Some (lifecycle_id_prefix a @ ''-'' @ archive_name),
      Filter = Some \<lparr>Prefix = Some archive, FilterRest = []\<rparr>,
      Status = ''Enabled'',
      Transitions =
        [\<lparr>Days = Some (glacier_days a), StorageClass = ''GLACIER'', TransitionRest = []\<rparr>],
      RuleRest = []\<rparr>"

definition archive_rule :: "lifecycle_args \<Rightarrow> prefix_item \<Rightarrow> error + rule" where
  "archive_rule a archive =
     (case archive of
        PrefixList l \<Rightarrow> Inl TypeError
      | PrefixStr s \<Rightarrow>
          (case archive_match a s of
             None \<Rightarrow> Inl AttributeError
           | Some archive_name \<Rightarrow> Inr (newrule a s archive_name)))"

fun archive_rules :: "lifecycle_args \<Rightarrow> prefix_item list \<Rightarrow> rule list \<Rightarrow> error + rule list" where
  "archive_rules a [] newrules = Inr newrules"
| "archive_rules a (archive # archives) newrules =
     (case archive_rule a archive of
        Inl e \<Rightarrow> Inl e
      | Inr r \<Rightarrow> archive_rules a archives (newrules @ [r]))"

text \<open>The value of \<open>newrules\<close> after both loops (source lines 208 to 245).\<close>

definition lifecycle_newrules ::
  "lifecycle_args \<Rightarrow> rule list \<Rightarrow> prefix_item list \<Rightarrow> error + rule list" where
  "lifecycle_newrules a rules archives =
     (case preserve_rules a rules [] of
        Inl e \<Rightarrow> Inl e
      | Inr kept \<Rightarrow> archive_rules a archives kept)"

text \<open>
  The bucket as the script sees it: the stored lifecycle configuration (\<open>None\<close> when the
  bucket has none or it cannot be read, and reading \<open>lifecycle.rules\<close> raises), the rule
  sets the service refuses to store, and the arguments of every \<open>put\<close> made so far.
  A \<open>put\<close> replaces the whole configuration.
\<close>

record bucket =
  lifecycle_configuration :: "rule list option"
  put_refused :: "rule list \<Rightarrow> bool"
  put_calls :: "rule list list"

definition lifecycle_put :: "rule list \<Rightarrow> bucket \<Rightarrow> (error + unit) \<times> bucket" where
  "lifecycle_put rules b =
     (if put_refused b rules
      then (Inl ClientError, b\<lparr>put_calls := put_calls b @ [rules]\<rparr>)
      else (Inr (), b\<lparr>lifecycle_configuration := Some rules,
                       put_calls := put_calls b @ [rules]\<rparr>))"

definition lifecycle_update ::
  "lifecycle_args \<Rightarrow> bucket \<Rightarrow> prefix_item list \<Rightarrow> (error + rule list) \<times> bucket" where
  "lifecycle_update a b archives =
     (case lifecycle_configuration b of
        None \<Rightarrow> (Inl ClientError, b)
      | Some rules \<Rightarrow>
          (case lifecycle_newrules a rules archives of
             Inl e \<Rightarrow> (Inl e, b)
           | Inr newrules \<Rightarrow>
               if \<not> noop a
               then (case lifecycle_put newrules b of
                       (Inl e, b') \<Rightarrow> (Inl e, b')
                     | (Inr u, b') \<Rightarrow> (Inr newrules, b'))
               else (Inr newrules, b)))"

section \<open>iam\_letsencrypt\_sync.py\<close>

subsection \<open>Configuration, time and the local directory\<close>

text \<open>The fields of \<open>args\<close> that decide what is replaced, each given with a value.\<close>

record sync_args =
  days :: int
  force :: bool

text \<open>
  A \<open>datetime\<close> is the number of microseconds since 0001-01-01T00:00:00 UTC, a
  \<open>timedelta\<close> a number of microseconds. \<open>timedelta(days=d)\<close> raises \<open>OverflowError\<close> when
  \<open>d\<close> has a magnitude above 999999999, and a subtraction raises it when the result leaves
  the years 1 to 9999.
\<close>

definition timedelta :: "int \<Rightarrow> error + int" where
  "timedelta d = (if 999999999 < \<bar>d\<bar> then Inl OverflowError else Inr (d * 86400000000))"

definition datetime_sub :: "int \<Rightarrow> int \<Rightarrow> error + int" where
  "datetime_sub t delta =
     (if t - delta < 0 then Inl OverflowError
      else if 3652059 * 86400000000 \<le> t - delta then Inl OverflowError
      else Inr (t - delta))"

text \<open>An entry of the live directory, with what \<open>isdir\<close> and \<open>isfile\<close> answer for it.\<close>

record dir_entry =
  entry_name :: string
  is_dir :: bool
  has_cert :: bool
  has_chain :: bool
  has_privkey :: bool

fun letsencrypt_certnames :: "dir_entry list \<Rightarrow> string list" where
  "letsencrypt_certnames [] = []"
| "letsencrypt_certnames (candidate # rest) =
     (if is_dir candidate
      then (if has_cert candidate \<and> has_chain candidate \<and> has_privkey candidate
            then entry_name candidate # letsencrypt_certnames rest
            else letsencrypt_certnames rest)
      else letsencrypt_certnames rest)"

text \<open>
  The machine the script runs on: what \<open>scandir\<close> yields for the live path (\<open>None\<close> when
  it raises), and the instant \<open>datetime.now(timezone.utc)\<close> returns while the loop
  examines a given certificate name.
\<close>

record host =
  live :: "dir_entry list option"
  now :: "string \<Rightarrow> int"

subsection \<open>The certificate store\<close>

record certdata =
  ServerCertificateName :: string
  Expiration :: int

record list_certificates =
  ServerCertificateMetadataList :: "certdata list"
  Marker :: "string option"

datatype iam_call = DeleteCert string | UploadCert string

fun call_name :: "iam_call \<Rightarrow> string" where
  "call_name (DeleteCert n) = n"
| "call_name (UploadCert n) = n"

text \<open>
  The store as the script sees it: the answers of \<open>list_server_certificates\<close> by the marker
  sent, the exception a delete or an upload of a name ends in (\<open>None\<close>: it succeeds; an
  upload also fails when one of the three local files cannot be read), and the calls of
  \<open>iam_delete_cert\<close> and \<open>iam_upload_cert\<close> made so far, in order.
\<close>

record iam =
  list_server_certificates :: "string option \<Rightarrow> error + list_certificates"
  delete_error :: "string \<Rightarrow> error option"
  upload_error :: "string \<Rightarrow> error option"
  calls :: "iam_call list"

definition dictmerge :: "(string \<rightharpoonup> int) \<Rightarrow> (string \<rightharpoonup> int) \<Rightarrow> (string \<rightharpoonup> int)" where
  "dictmerge x y = x ++ y"

text \<open>
  \<open>certificate_expirations\<close> fills \<open>expires\<close> from one answer. When the answer carries a
  \<open>Marker\<close>, the next statement names \<open>list_certificates\<close>, which the module does not
  define: evaluating the name raises \<open>NameError\<close> before \<open>dictmerge\<close> is entered.
\<close>

definition certificate_expirations ::
  "(string option \<Rightarrow> error + list_certificates) \<Rightarrow> string option \<Rightarrow> error + (string \<rightharpoonup> int)" where
  "certificate_expirations list_certs marker =
     (case list_certs (case marker of None \<Rightarrow> None | Some m \<Rightarrow> if m = [] then None else Some m) of
        Inl e \<Rightarrow> Inl e
      | Inr response \<Rightarrow>
          (let expires =
                 fold (\<lambda>certdata expires.
                         expires(ServerCertificateName certdata \<mapsto> Expiration certdata))
                   (ServerCertificateMetadataList response) Map.empty
           in case Marker response of
                None \<Rightarrow> Inr expires
              | Some m \<Rightarrow> Inl NameError))"

definition iam_delete_cert :: "string \<Rightarrow> iam \<Rightarrow> (error + unit) \<times> iam" where
  "iam_delete_cert name s =
     (case delete_error s name of
        Some e \<Rightarrow> (Inl e, s\<lparr>calls := calls s @ [DeleteCert name]\<rparr>)
      | None \<Rightarrow> (Inr (), s\<lparr>calls := calls s @ [DeleteCert name]\<rparr>))"

definition iam_upload_cert :: "string \<Rightarrow> iam \<Rightarrow> (error + unit) \<times> iam" where
  "iam_upload_cert name s =
     (case upload_error s name of
        Some e \<Rightarrow> (Inl e, s\<lparr>calls := calls s @ [UploadCert name]\<rparr>)
      | None \<Rightarrow> (Inr (), s\<lparr>calls := calls s @ [UploadCert name]\<rparr>))"

subsection \<open>iam\_sync\_certs\<close>

text \<open>The two statements both replacing branches hold: delete, then upload.\<close>

definition delete_then_upload :: "string \<Rightarrow> iam \<Rightarrow> (error + unit) \<times> iam" where
  "delete_then_upload certname s =
     (case iam_delete_cert certname s of
        (Inl e, s') \<Rightarrow> (Inl e, s')
      | (Inr u, s') \<Rightarrow> iam_upload_cert certname s')"

text \<open>
  \<open>replacedate = expires[certname] - timedelta(days=args.days)\<close>, for the expiration read
  from \<open>expires\<close>.
\<close>

definition replacedate :: "sync_args \<Rightarrow> int \<Rightarrow> error + int" where
  "replacedate a expiration =
     (case timedelta (days a) of
        Inl e \<Rightarrow> Inl e
      | Inr window \<Rightarrow> datetime_sub expiration window)"

text \<open>The body of the loop for one certificate name.\<close>

definition sync_cert ::
  "sync_args \<Rightarrow> (string \<Rightarrow> int) \<Rightarrow> (string \<rightharpoonup> int) \<Rightarrow> string \<Rightarrow> iam \<Rightarrow> (error + unit) \<times> iam" where
  "sync_cert a clock expires certname s =
     (case expires certname of
        Some expiration \<Rightarrow>
          (case replacedate a expiration of
             Inl e \<Rightarrow> (Inl e, s)
           | Inr d \<Rightarrow>
               if clock certname \<ge> d then delete_then_upload certname s
               else if force a then delete_then_upload certname s
               else (Inr (), s))
      | None \<Rightarrow> iam_upload_cert certname s)"

fun sync_certs ::
  "sync_args \<Rightarrow> (string \<Rightarrow> int) \<Rightarrow> (string \<rightharpoonup> int) \<Rightarrow> string list \<Rightarrow> iam \<Rightarrow> (error + unit) \<times> iam" where
  "sync_certs a clock expires [] s = (Inr (), s)"
| "sync_certs a clock expires (certname # certnames) s =
     (case sync_cert a clock expires certname s of
        (Inl e, s') \<Rightarrow> (Inl e, s')
      | (Inr u, s') \<Rightarrow> sync_certs a clock expires certnames s')"

definition iam_sync_certs :: "sync_args \<Rightarrow> host \<Rightarrow> iam \<Rightarrow> (error + unit) \<times> iam" where
  "iam_sync_certs a h s =
     (case live h of
        None \<Rightarrow> (Inl OSError, s)
      | Some entries \<Rightarrow>
          (case certificate_expirations (list_server_certificates s) None of
             Inl e \<Rightarrow> (Inl e, s)
           | Inr expires \<Rightarrow> sync_certs a (now h) expires (letsencrypt_certnames entries) s))"

section \<open>Vocabulary of the properties\<close>

text \<open>
  The filter prefix of a rule, when the rule has one, and the three kinds of existing
  rule the first loop tells apart: \<open>unrelated\<close> (the filter prefix does not match the
  pattern), \<open>foreign\<close> (it matches and the identifier does not start with the configured
  identifier prefix) and \<open>tool_managed\<close> (it matches and the identifier does). \<open>preserved\<close>
  holds of the rules the first loop carries over. \<open>synthesized a archive r\<close> says that \<open>r\<close>
  is the rule the second loop builds for the archive prefix \<open>archive\<close>.
\<close>

definition rule_prefix :: "rule \<Rightarrow> string option" where
  "rule_prefix r = (case Filter r of None \<Rightarrow> None | Some f \<Rightarrow> Prefix f)"

definition unrelated :: "lifecycle_args \<Rightarrow> rule \<Rightarrow> bool" where
  "unrelated a r = (case rule_prefix r of None \<Rightarrow> False | Some p \<Rightarrow> archive_match a p = None)"

definition foreign :: "lifecycle_args \<Rightarrow> rule \<Rightarrow> bool" where
  "foreign a r =
     (case rule_prefix r of
        None \<Rightarrow> False
      | Some p \<Rightarrow>
          (case archive_match a p of
             None \<Rightarrow> False
           | Some g \<Rightarrow> (case ID r of None \<Rightarrow> False | Some i \<Rightarrow> \<not> prefix (lifecycle_id_prefix a) i)))"

definition tool_managed :: "lifecycle_args \<Rightarrow> rule \<Rightarrow> bool" where
  "tool_managed a r =
     (case rule_prefix r of
        None \<Rightarrow> False
      | Some p \<Rightarrow>
          (case archive_match a p of
             None \<Rightarrow> False
           | Some g \<Rightarrow> (case ID r of None \<Rightarrow> False | Some i \<Rightarrow> prefix (lifecycle_id_prefix a) i)))"

definition preserved :: "lifecycle_args \<Rightarrow> rule \<Rightarrow> bool" where
  "preserved a r = (unrelated a r \<or> (foreign a r \<and> \<not> clean a))"

definition synthesized :: "lifecycle_args \<Rightarrow> string \<Rightarrow> rule \<Rightarrow> bool" where
  "synthesized a archive r =
     (case archive_match a archive of None \<Rightarrow> False | Some n \<Rightarrow> r = newrule a archive n)"

text \<open>The calls made for one certificate name, in order.\<close>

definition calls_for :: "string \<Rightarrow> iam_call list \<Rightarrow> iam_call list" where
  "calls_for certname cs = filter (\<lambda>k. call_name k = certname) cs"

text \<open>
  The calls the loop body makes for a certificate name when nothing raises: an upload
  for a name the store does not hold; a delete and an upload for a name whose expiration
  is at most the window away, or whenever \<open>force\<close> is set; none otherwise.
\<close>

definition cert_calls ::
  "sync_args \<Rightarrow> (string \<Rightarrow> int) \<Rightarrow> (string \<rightharpoonup> int) \<Rightarrow> string \<Rightarrow> iam_call list" where
  "cert_calls a clock expires c =
     (case expires c of
        None \<Rightarrow> [UploadCert c]
      | Some expiration \<Rightarrow>
          if expiration - clock c \<le> days a * 86400000000 \<or> force a
          then [DeleteCert c, UploadCert c]
          else [])"

section \<open>Example data\<close>

text \<open>
  A bucket with one rule of each kind under the default configuration, the archive
  prefixes of two backups, and the rule sets the reconciler computes from them without
  and with \<open>--clean\<close>.
\<close>

definition clean_args :: lifecycle_args where
  "clean_args = default_args\<lparr>clean := True\<rparr>"

definition noop_args :: lifecycle_args where
  "noop_args = default_args\<lparr>noop := True\<rparr>"

definition foreign_rule :: rule where
  "foreign_rule =
     \<lparr>ID = Some ''keep-a-year'',
      Filter = Some \<lparr>Prefix = Some ''duplicity/home/archive/'', FilterRest = []\<rparr>,
      Status = ''Enabled'', Transitions = [], RuleRest = [(''Expiration'', ''Days=365'')]\<rparr>"

definition unrelated_rule :: rule where
  "unrelated_rule =
     \<lparr>ID = Some ''logs'',
      Filter = Some \<lparr>Prefix = Some ''logs/'', FilterRest = []\<rparr>,
      Status = ''Enabled'', Transitions = [], RuleRest = [(''Expiration'', ''Days=30'')]\<rparr>"

definition stale_rule :: rule where
  "stale_rule = newrule default_args ''duplicity/gone/archive/'' ''gone''"

definition example_bucket :: bucket where
  "example_bucket =
     \<lparr>lifecycle_configuration = Some [foreign_rule, unrelated_rule, stale_rule],
      put_refused = (\<lambda>rules. False), put_calls = []\<rparr>"

definition example_archives :: "string list" where
  "example_archives = [''duplicity/archive/x/archive/'', ''duplicity/home/archive/'']"

definition example_newrules :: "rule list" where
  "example_newrules =
     [foreign_rule, unrelated_rule,
      newrule default_args ''duplicity/archive/x/archive/'' ''archive/x'',
      newrule default_args ''duplicity/home/archive/'' ''home'']"

definition example_newrules_clean :: "rule list" where
  "example_newrules_clean =
     [unrelated_rule,
      newrule default_args ''duplicity/archive/x/archive/'' ''archive/x'',
      newrule default_args ''duplicity/home/archive/'' ''home'']"

text \<open>The bucket of the specification's example: a configuration with no rule.\<close>

definition empty_bucket :: bucket where
  "empty_bucket =
     \<lparr>lifecycle_configuration = Some [], put_refused = (\<lambda>rules. False), put_calls = []\<rparr>"

text \<open>
  A rule the tool made for the backup \<open>x\<close> while the duplicity prefix was configured as
  \<open>backup/\<close>: under the default configuration its filter prefix no longer matches the
  pattern.
\<close>

definition moved_rule :: rule where
  "moved_rule = newrule default_args ''backup/x/archive/'' ''x''"

definition moved_bucket :: bucket where
  "moved_bucket =
     \<lparr>lifecycle_configuration = Some [moved_rule], put_refused = (\<lambda>rules. False), put_calls = []\<rparr>"

text \<open>A listing of archive prefixes that the service splits into two pages.\<close>

definition two_page_bucket :: "string option \<Rightarrow> error + list_objects" where
  "two_page_bucket token =
     (if token = Some ''page2''
      then Inr \<lparr>CommonPrefixes = Some [''duplicity/b/archive/''], NextContinuationToken = None\<rparr>
      else Inr \<lparr>CommonPrefixes = Some [''duplicity/a/archive/''],
                NextContinuationToken = Some ''page2''\<rparr>)"

text \<open>
  Certificates: three valid directories and a plain file under the live path; the store
  holds \<open>a.example.org\<close>, expiring in 10 days, and \<open>c.example.org\<close>, expiring in 90 days;
  the window is 30 days and every call succeeds.
\<close>

definition example_now :: int where
  "example_now = 63900000000000000"

definition example_sync_args :: sync_args where
  "example_sync_args = \<lparr>days = 30, force = False\<rparr>"

definition example_entries :: "dir_entry list" where
  "example_entries =
     [\<lparr>entry_name = ''a.example.org'', is_dir = True, has_cert = True, has_chain = True,
       has_privkey = True\<rparr>,
      \<lparr>entry_name = ''README'', is_dir = False, has_cert = False, has_chain = False,
       has_privkey = False\<rparr>,
      \<lparr>entry_name = ''b.example.org'', is_dir = True, has_cert = True, has_chain = True,
       has_privkey = True\<rparr>,
      \<lparr>entry_name = ''c.example.org'', is_dir = True, has_cert = True, has_chain = True,
       has_privkey = True\<rparr>]"

definition example_host :: host where
  "example_host = \<lparr>live = Some example_entries, now = (\<lambda>certname. example_now)\<rparr>"

definition example_expires :: "string \<rightharpoonup> int" where
  "example_expires =
     [''a.example.org'' \<mapsto> example_now + 10 * 86400000000,
      ''c.example.org'' \<mapsto> example_now + 90 * 86400000000]"

definition example_iam :: iam where
  "example_iam =
     \<lparr>list_server_certificates =
        (\<lambda>marker. Inr \<lparr>ServerCertificateMetadataList =
                          [\<lparr>ServerCertificateName = ''a.example.org'',
                            Expiration = example_now + 10 * 86400000000\<rparr>,
                           \<lparr>ServerCertificateName = ''c.example.org'',
                            Expiration = example_now + 90 * 86400000000\<rparr>],
                        Marker = None\<rparr>),
      delete_error = (\<lambda>name. None), upload_error = (\<lambda>name. None), calls = []\<rparr>"

text \<open>The same store with \<open>a.example.org\<close> expiring in exactly 30 days.\<close>

definition boundary_iam :: iam where
  "boundary_iam =
     \<lparr>list_server_certificates =
        (\<lambda>marker. Inr \<lparr>ServerCertificateMetadataList =
                          [\<lparr>ServerCertificateName = ''a.example.org'',
                            Expiration = example_now + 30 * 86400000000\<rparr>],
                        Marker = None\<rparr>),
      delete_error = (\<lambda>name. None), upload_error = (\<lambda>name. None), calls = []\<rparr>"

text \<open>A listing of certificates that the service splits into two pages.\<close>

definition two_page_listing :: "string option \<Rightarrow> error + list_certificates" where
  "two_page_listing marker =
     (if marker = Some ''page2''
      then Inr \<lparr>ServerCertificateMetadataList =
                  [\<lparr>ServerCertificateName = ''b.example.org'', Expiration = example_now\<rparr>],
                Marker = None\<rparr>
      else Inr \<lparr>ServerCertificateMetadataList =
                  [\<lparr>ServerCertificateName = ''a.example.org'', Expiration = example_now\<rparr>],
                Marker = Some ''page2''\<rparr>)"

section \<open>Properties of the lifecycle reconciler\<close>

text \<open>
  The properties of \<open>lifecycle_update\<close> are stated for a configuration whose pattern is
  plain (\<open>plain_pattern\<close>), the configurations \<open>archive_match\<close> describes. A property of
  the rule set a run returns is a property of the runs that return one;
  \<open>lifecycle_newrules_returns\<close> says which runs do.
\<close>

subsection \<open>The two loops\<close>

lemma keep_rule_True: "keep_rule a r = Inr True \<longleftrightarrow> preserved a r"
  by (auto simp: keep_rule_def preserved_def unrelated_def foreign_def rule_prefix_def
      split: option.splits if_splits)

lemma keep_rule_False: "keep_rule a r = Inr False \<longleftrightarrow> tool_managed a r \<or> (foreign a r \<and> clean a)"
  by (auto simp: keep_rule_def tool_managed_def foreign_def rule_prefix_def
      split: option.splits if_splits)

lemma keep_rule_returns: "keep_rule a r = Inr k \<Longrightarrow> k = preserved a r"
  using keep_rule_True[of a r] by (cases k) auto

lemma preserve_rules_Inr:
  "preserve_rules a rules acc = Inr kept \<Longrightarrow> kept = acc @ filter (preserved a) rules"
proof (induction rules arbitrary: acc)
  case Nil
  then show ?case by simp
next
  case (Cons r rules)
  then obtain k where k: "keep_rule a r = Inr k"
    by (cases "keep_rule a r") auto
  with Cons.prems have "preserve_rules a rules (if k then acc @ [r] else acc) = Inr kept"
    by simp
  from Cons.IH[OF this] keep_rule_returns[OF k] show ?case
    by auto
qed

lemma preserve_rules_readable:
  "preserve_rules a rules acc = Inr kept \<Longrightarrow> r \<in> set rules \<Longrightarrow> \<exists>k. keep_rule a r = Inr k"
proof (induction rules arbitrary: acc)
  case Nil
  then show ?case by simp
next
  case (Cons x rules)
  then obtain k where k: "keep_rule a x = Inr k"
    by (cases "keep_rule a x") auto
  with Cons.prems have "preserve_rules a rules (if k then acc @ [x] else acc) = Inr kept"
    by simp
  with Cons.IH Cons.prems(2) k show ?case by auto
qed

lemma preserve_rules_total:
  "(\<And>r. r \<in> set rules \<Longrightarrow> \<exists>k. keep_rule a r = Inr k) \<Longrightarrow>
   preserve_rules a rules acc = Inr (acc @ filter (preserved a) rules)"
proof (induction rules arbitrary: acc)
  case Nil
  then show ?case by simp
next
  case (Cons x rules)
  then obtain k where k: "keep_rule a x = Inr k" by auto
  from Cons.IH[of "if k then acc @ [x] else acc"] Cons.prems keep_rule_returns[OF k] k
  show ?case by auto
qed

lemma archive_rules_Inr:
  "archive_rules a archives acc = Inr out \<Longrightarrow>
   \<exists>strs news. archives = map PrefixStr strs \<and> out = acc @ news \<and> list_all2 (synthesized a) strs news"
proof (induction archives arbitrary: acc)
  case Nil
  then show ?case by simp
next
  case (Cons x archives)
  then obtain r where r: "archive_rule a x = Inr r"
    by (cases "archive_rule a x") auto
  then obtain s where s: "x = PrefixStr s" "synthesized a s r"
    by (auto simp: archive_rule_def synthesized_def split: prefix_item.splits option.splits)
  from Cons.prems r have "archive_rules a archives (acc @ [r]) = Inr out" by simp
  from Cons.IH[OF this] obtain strs news where
    "archives = map PrefixStr strs" "out = (acc @ [r]) @ news" "list_all2 (synthesized a) strs news"
    by blast
  with s have "x # archives = map PrefixStr (s # strs) \<and> out = acc @ (r # news) \<and>
      list_all2 (synthesized a) (s # strs) (r # news)" by simp
  then show ?case
    by - (rule exI[where x = "s # strs"], rule exI[where x = "r # news"])
qed

lemma archive_rules_total:
  "list_all2 (synthesized a) strs news \<Longrightarrow>
   archive_rules a (map PrefixStr strs) acc = Inr (acc @ news)"
proof (induction strs news arbitrary: acc rule: list_all2_induct)
  case Nil
  then show ?case by simp
next
  case (Cons s strs r news)
  then have "archive_rule a (PrefixStr s) = Inr r"
    by (auto simp: archive_rule_def synthesized_def split: option.splits)
  with Cons.IH[of "acc @ [r]"] show ?case by simp
qed

lemma synthesized_tool_managed: "synthesized a s r \<Longrightarrow> tool_managed a r"
  by (auto simp: synthesized_def tool_managed_def newrule_def rule_prefix_def split: option.splits)

lemma synthesized_prefix: "synthesized a s r \<Longrightarrow> rule_prefix r = Some s"
  by (auto simp: synthesized_def newrule_def rule_prefix_def split: option.splits)

lemma tool_managed_not_preserved: "tool_managed a r \<Longrightarrow> \<not> preserved a r"
  by (auto simp: tool_managed_def preserved_def unrelated_def foreign_def split: option.splits)

lemma lifecycle_newrules_Inr:
  assumes "lifecycle_newrules a rules archives = Inr out"
  shows "\<exists>strs news. archives = map PrefixStr strs \<and> out = filter (preserved a) rules @ news \<and>
           preserve_rules a rules [] = Inr (filter (preserved a) rules) \<and>
           list_all2 (synthesized a) strs news"
proof -
  from assms obtain kept where kept: "preserve_rules a rules [] = Inr kept"
    and ar: "archive_rules a archives kept = Inr out"
    by (auto simp: lifecycle_newrules_def split: sum.splits)
  from preserve_rules_Inr[OF kept] have k: "kept = filter (preserved a) rules" by simp
  from archive_rules_Inr[OF ar] kept k show ?thesis by auto
qed

lemma lifecycle_update_Inr:
  assumes "fst (lifecycle_update a b archives) = Inr out"
  shows "\<exists>rules. lifecycle_configuration b = Some rules \<and> lifecycle_newrules a rules archives = Inr out"
  using assms
  by (auto simp: lifecycle_update_def split: option.splits sum.splits if_splits prod.splits)



lemma foreign_not_tool_managed: "foreign a r \<Longrightarrow> \<not> tool_managed a r"
  by (auto simp: tool_managed_def foreign_def split: option.splits)

lemma foreign_not_unrelated: "foreign a r \<Longrightarrow> \<not> unrelated a r"
  by (auto simp: foreign_def unrelated_def split: option.splits)

lemma list_all2_synthesized_set:
  "list_all2 (synthesized a) strs news \<Longrightarrow> r \<in> set news \<Longrightarrow> \<exists>s \<in> set strs. synthesized a s r"
  by (induction strs news rule: list_all2_induct) auto

lemma keep_rule_synthesized: "synthesized a s r \<Longrightarrow> keep_rule a r = Inr False"
  using synthesized_tool_managed[of a s r] keep_rule_False[of a r] by simp

text \<open>
  When the run returns: every existing rule has a filter prefix and, where that matches
  the pattern, an identifier; every archive prefix is a string that matches the pattern.
\<close>

lemma keep_rule_readable:
  "unrelated a r \<or> foreign a r \<or> tool_managed a r \<Longrightarrow> \<exists>k. keep_rule a r = Inr k"
  using keep_rule_True[of a r] keep_rule_False[of a r]
  by (cases "clean a") (auto simp: preserved_def)

lemma synthesized_exists:
  "\<forall>s \<in> set strs. archive_match a s \<noteq> None \<Longrightarrow> \<exists>news. list_all2 (synthesized a) strs news"
proof (induction strs)
  case Nil
  then show ?case by simp
next
  case (Cons s strs)
  then obtain news n where "list_all2 (synthesized a) strs news" "archive_match a s = Some n"
    by auto
  then have "list_all2 (synthesized a) (s # strs) (newrule a s n # news)"
    by (simp add: synthesized_def)
  then show ?case by blast
qed

lemma lifecycle_newrules_returns:
  assumes "\<forall>r \<in> set rules. unrelated a r \<or> foreign a r \<or> tool_managed a r"
    and "\<forall>s \<in> set strs. archive_match a s \<noteq> None"
  shows "\<exists>out. lifecycle_newrules a rules (map PrefixStr strs) = Inr out"
proof -
  from assms(1) have "preserve_rules a rules [] = Inr (filter (preserved a) rules)"
    using preserve_rules_total[of rules a "[]"] keep_rule_readable by simp
  moreover from synthesized_exists[OF assms(2)] obtain news where
    "list_all2 (synthesized a) strs news" by blast
  from archive_rules_total[OF this, of "filter (preserved a) rules"]
  have "archive_rules a (map PrefixStr strs) (filter (preserved a) rules) =
      Inr (filter (preserved a) rules @ news)" .
  ultimately show ?thesis by (simp add: lifecycle_newrules_def)
qed

subsection \<open>The example, evaluated\<close>

lemma plain_default_args: "plain_pattern default_args"
  by (simp add: plain_pattern_def default_args_def regex_special_def)

lemma plain_clean_args: "plain_pattern clean_args"
  by (simp add: plain_pattern_def clean_args_def default_args_def regex_special_def)

lemma plain_noop_args: "plain_pattern noop_args"
  by (simp add: plain_pattern_def noop_args_def default_args_def regex_special_def)

lemma example_matches:
  "archive_match (default_args\<lparr>clean := c, noop := n\<rparr>) ''duplicity/archive/x/archive/'' = Some ''archive/x''"
  "archive_match (default_args\<lparr>clean := c, noop := n\<rparr>) ''duplicity/home/archive/'' = Some ''home''"
  "archive_match (default_args\<lparr>clean := c, noop := n\<rparr>) ''duplicity/gone/archive/'' = Some ''gone''"
  "archive_match (default_args\<lparr>clean := c, noop := n\<rparr>) ''logs/'' = None"
  by (simp_all add: archive_match_def default_args_def)

lemma example_newrules_run:
  "lifecycle_newrules default_args [foreign_rule, unrelated_rule, stale_rule]
     (map PrefixStr example_archives) = Inr example_newrules"
  using example_matches[where c = False and n = False]
  by (simp add: lifecycle_newrules_def keep_rule_def archive_rule_def example_archives_def
      example_newrules_def foreign_rule_def unrelated_rule_def stale_rule_def newrule_def
      default_args_def)

lemma example_newrules_noop_run:
  "lifecycle_newrules noop_args [foreign_rule, unrelated_rule, stale_rule]
     (map PrefixStr example_archives) = Inr example_newrules"
  using example_matches[where c = False and n = True]
  by (simp add: lifecycle_newrules_def keep_rule_def archive_rule_def example_archives_def
      example_newrules_def foreign_rule_def unrelated_rule_def stale_rule_def newrule_def
      default_args_def noop_args_def)

lemma example_newrules_clean_run:
  "lifecycle_newrules clean_args [foreign_rule, unrelated_rule, stale_rule]
     (map PrefixStr example_archives) = Inr example_newrules_clean"
  using example_matches[where c = True and n = False]
  by (simp add: lifecycle_newrules_def keep_rule_def archive_rule_def example_archives_def
      example_newrules_clean_def foreign_rule_def unrelated_rule_def stale_rule_def newrule_def
      default_args_def clean_args_def)

lemma example_update_run:
  "fst (lifecycle_update default_args example_bucket (map PrefixStr example_archives)) =
     Inr example_newrules"
  using example_newrules_run
  by (simp add: lifecycle_update_def lifecycle_put_def example_bucket_def default_args_def)

lemma example_update_clean_run:
  "fst (lifecycle_update clean_args example_bucket (map PrefixStr example_archives)) =
     Inr example_newrules_clean"
  using example_newrules_clean_run
  by (simp add: lifecycle_update_def lifecycle_put_def example_bucket_def clean_args_def
      default_args_def)

lemma example_kinds:
  "foreign default_args foreign_rule" "foreign clean_args foreign_rule"
  "unrelated default_args unrelated_rule" "tool_managed default_args stale_rule"
  using example_matches[where c = False and n = False] example_matches[where c = True and n = False]
  by (simp_all add: foreign_def unrelated_def tool_managed_def rule_prefix_def foreign_rule_def
      unrelated_rule_def stale_rule_def newrule_def clean_args_def default_args_def)

subsection \<open>Foreign and unrelated rules\<close>

text \<open>
  Claim C2. Take a run of \<open>lifecycle_update\<close> that returns a rule set, and a rule of the
  bucket's existing configuration. If its filter prefix matches the archive-path pattern
  and its identifier does not start with the configured identifier prefix (\<open>foreign\<close>),
  the rule is in the returned rule set when \<open>clean\<close> is false and is not in it when \<open>clean\<close>
  is true. If its filter prefix does not match the pattern (\<open>unrelated\<close>), the rule is in
  the returned rule set whatever \<open>clean\<close> is.
\<close>

theorem lifecycle_update_foreign_and_unrelated:
  assumes "plain_pattern a"
    and "lifecycle_configuration b = Some rules"
    and "fst (lifecycle_update a b archives) = Inr out"
    and "r \<in> set rules"
  shows "(foreign a r \<and> \<not> clean a \<longrightarrow> r \<in> set out) \<and>
         (foreign a r \<and> clean a \<longrightarrow> r \<notin> set out) \<and>
         (unrelated a r \<longrightarrow> r \<in> set out)"
proof -
  from lifecycle_update_Inr[OF assms(3)] assms(2)
  have nr: "lifecycle_newrules a rules archives = Inr out" by auto
  from lifecycle_newrules_Inr[OF nr] obtain strs news where
    out: "out = filter (preserved a) rules @ news" and news: "list_all2 (synthesized a) strs news"
    by blast
  have kept: "preserved a r \<Longrightarrow> r \<in> set out"
    using out assms(4) by simp
  have dropped: "r \<notin> set out" if f: "foreign a r" and c: "clean a"
  proof
    assume "r \<in> set out"
    with out have "preserved a r \<or> r \<in> set news" by auto
    then show False
    proof
      assume p: "preserved a r"
      with foreign_not_unrelated[OF f] c show False by (simp add: preserved_def)
    next
      assume "r \<in> set news"
      from list_all2_synthesized_set[OF news this] obtain s where "synthesized a s r" by blast
      from synthesized_tool_managed[OF this] foreign_not_tool_managed[OF f] show False by simp
    qed
  qed
  from kept dropped show ?thesis by (auto simp: preserved_def)
qed

theorem lifecycle_update_foreign_and_unrelated_witness:
  "plain_pattern default_args \<and> plain_pattern clean_args \<and>
   lifecycle_configuration example_bucket = Some [foreign_rule, unrelated_rule, stale_rule] \<and>
   fst (lifecycle_update default_args example_bucket (map PrefixStr example_archives)) =
     Inr example_newrules \<and>
   fst (lifecycle_update clean_args example_bucket (map PrefixStr example_archives)) =
     Inr example_newrules_clean \<and>
   foreign default_args foreign_rule \<and> \<not> clean default_args \<and>
   foreign_rule \<in> set example_newrules \<and>
   foreign clean_args foreign_rule \<and> clean clean_args \<and>
   foreign_rule \<notin> set example_newrules_clean \<and>
   unrelated default_args unrelated_rule \<and> unrelated_rule \<in> set example_newrules"
proof -
  have cfg: "lifecycle_configuration example_bucket = Some [foreign_rule, unrelated_rule, stale_rule]"
    by (simp add: example_bucket_def)
  have flags: "\<not> clean default_args" "clean clean_args"
    by (simp_all add: default_args_def clean_args_def)
  from lifecycle_update_foreign_and_unrelated[OF plain_default_args cfg example_update_run,
      of foreign_rule] example_kinds(1) flags(1)
  have a: "foreign_rule \<in> set example_newrules" by simp
  from lifecycle_update_foreign_and_unrelated[OF plain_clean_args cfg example_update_clean_run,
      of foreign_rule] example_kinds(2) flags(2)
  have b: "foreign_rule \<notin> set example_newrules_clean" by simp
  from lifecycle_update_foreign_and_unrelated[OF plain_default_args cfg example_update_run,
      of unrelated_rule] example_kinds(3)
  have c: "unrelated_rule \<in> set example_newrules" by simp
  from a b c cfg flags example_kinds plain_default_args plain_clean_args example_update_run
    example_update_clean_run
  show ?thesis by simp
qed

subsection \<open>Tool-managed rules\<close>

text \<open>
  Claim C10. Take a run of \<open>lifecycle_update\<close> that returns a rule set, and a rule whose
  filter prefix matches the archive-path pattern and whose identifier starts with the
  configured identifier prefix (\<open>tool_managed\<close>). The first loop ends with a list of
  preserved rules that does not hold the rule, whatever \<open>clean\<close> is. If moreover the
  rule's filter prefix is not among the archive prefixes handed to \<open>lifecycle_update\<close>,
  the rule is not in the returned rule set.
\<close>

theorem lifecycle_update_drops_tool_managed:
  assumes "plain_pattern a"
    and "lifecycle_configuration b = Some rules"
    and "fst (lifecycle_update a b archives) = Inr out"
    and "tool_managed a r"
  shows "(\<exists>kept. preserve_rules a rules [] = Inr kept \<and> r \<notin> set kept) \<and>
         ((\<forall>p. rule_prefix r = Some p \<longrightarrow> PrefixStr p \<notin> set archives) \<longrightarrow> r \<notin> set out)"
proof -
  from lifecycle_update_Inr[OF assms(3)] assms(2)
  have nr: "lifecycle_newrules a rules archives = Inr out" by auto
  from lifecycle_newrules_Inr[OF nr] obtain strs news where
    ar: "archives = map PrefixStr strs" and
    out: "out = filter (preserved a) rules @ news" and
    kept: "preserve_rules a rules [] = Inr (filter (preserved a) rules)" and
    news: "list_all2 (synthesized a) strs news"
    by blast
  have nk: "r \<notin> set (filter (preserved a) rules)"
    using tool_managed_not_preserved[OF assms(4)] by simp
  have "r \<notin> set out" if gone: "\<forall>p. rule_prefix r = Some p \<longrightarrow> PrefixStr p \<notin> set archives"
  proof
    assume "r \<in> set out"
    with out nk have "r \<in> set news" by auto
    from list_all2_synthesized_set[OF news this] obtain s where
      s: "s \<in> set strs" "synthesized a s r" by blast
    from synthesized_prefix[OF s(2)] gone have "PrefixStr s \<notin> set archives" by simp
    with s(1) ar show False by simp
  qed
  with kept nk show ?thesis by blast
qed

theorem lifecycle_update_drops_tool_managed_witness:
  "plain_pattern default_args \<and>
   lifecycle_configuration example_bucket = Some [foreign_rule, unrelated_rule, stale_rule] \<and>
   fst (lifecycle_update default_args example_bucket (map PrefixStr example_archives)) =
     Inr example_newrules \<and>
   tool_managed default_args stale_rule \<and>
   rule_prefix stale_rule = Some ''duplicity/gone/archive/'' \<and>
   PrefixStr ''duplicity/gone/archive/'' \<notin> set (map PrefixStr example_archives) \<and>
   preserve_rules default_args [foreign_rule, unrelated_rule, stale_rule] [] =
     Inr [foreign_rule, unrelated_rule] \<and>
   stale_rule \<notin> set [foreign_rule, unrelated_rule] \<and>
   stale_rule \<notin> set example_newrules"
proof -
  have cfg: "lifecycle_configuration example_bucket = Some [foreign_rule, unrelated_rule, stale_rule]"
    by (simp add: example_bucket_def)
  have pre: "rule_prefix stale_rule = Some ''duplicity/gone/archive/''"
    by (simp add: rule_prefix_def stale_rule_def newrule_def)
  have gone: "PrefixStr ''duplicity/gone/archive/'' \<notin> set (map PrefixStr example_archives)"
    by (simp add: example_archives_def)
  have kept: "preserve_rules default_args [foreign_rule, unrelated_rule, stale_rule] [] =
      Inr [foreign_rule, unrelated_rule]"
    using example_matches[where c = False and n = False]
    by (simp add: keep_rule_def foreign_rule_def unrelated_rule_def stale_rule_def newrule_def
        default_args_def)
  from lifecycle_update_drops_tool_managed[OF plain_default_args cfg example_update_run
      example_kinds(4)] pre gone kept
  have "stale_rule \<notin> set [foreign_rule, unrelated_rule] \<and> stale_rule \<notin> set example_newrules"
    by auto
  with plain_default_args cfg example_update_run example_kinds(4) pre gone kept
  show ?thesis by simp
qed

subsection \<open>Idempotence\<close>

text \<open>
  The first loop, run on a rule set that \<open>lifecycle_update\<close> computed, keeps the rules it
  had preserved and drops every synthesized rule.
\<close>

lemma preserve_rules_of_newrules:
  assumes "out = filter (preserved a) rules @ news"
    and "list_all2 (synthesized a) strs news"
  shows "preserve_rules a out [] = Inr (filter (preserved a) rules)"
proof -
  have readable: "\<exists>k. keep_rule a r = Inr k" if "r \<in> set out" for r
  proof -
    from that assms(1) have "preserved a r \<or> r \<in> set news" by auto
    then show ?thesis
    proof
      assume "preserved a r"
      then have "keep_rule a r = Inr True" by (simp add: keep_rule_True)
      then show ?thesis by blast
    next
      assume "r \<in> set news"
      from list_all2_synthesized_set[OF assms(2) this] obtain s where "synthesized a s r" by blast
      from keep_rule_synthesized[OF this] show ?thesis by blast
    qed
  qed
  have "filter (preserved a) news = []"
    using list_all2_synthesized_set[OF assms(2)] synthesized_tool_managed
      tool_managed_not_preserved
    by (fastforce simp: filter_empty_conv)
  then have "filter (preserved a) out = filter (preserved a) rules"
    using assms(1) by simp
  with preserve_rules_total[of out a "[]"] readable show ?thesis by simp
qed

text \<open>
  Claim C3. When the rule computation of \<open>lifecycle_update\<close> returns a rule set for an
  initial rule list and a list of archive prefixes, the same computation applied to that
  rule set, with the same archive prefixes and the same configuration, returns the very
  same rule set.
\<close>

theorem lifecycle_newrules_idempotent:
  assumes "plain_pattern a"
    and "lifecycle_newrules a rules archives = Inr out"
  shows "lifecycle_newrules a out archives = Inr out"
proof -
  from lifecycle_newrules_Inr[OF assms(2)] obtain strs news where
    ar: "archives = map PrefixStr strs" and
    out: "out = filter (preserved a) rules @ news" and
    news: "list_all2 (synthesized a) strs news"
    by blast
  have first_loop: "preserve_rules a out [] = Inr (filter (preserved a) rules)"
    using out news by (rule preserve_rules_of_newrules)
  have second_loop: "archive_rules a archives (filter (preserved a) rules) = Inr out"
    using archive_rules_total[OF news, of "filter (preserved a) rules"] ar out by simp
  from first_loop second_loop show ?thesis
    by (simp add: lifecycle_newrules_def)
qed

theorem lifecycle_newrules_idempotent_witness:
  "plain_pattern default_args \<and>
   lifecycle_newrules default_args [foreign_rule, unrelated_rule, stale_rule]
     (map PrefixStr example_archives) = Inr example_newrules \<and>
   lifecycle_newrules default_args example_newrules (map PrefixStr example_archives) =
     Inr example_newrules"
  using lifecycle_newrules_idempotent[OF plain_default_args example_newrules_run]
    plain_default_args example_newrules_run
  by simp

text \<open>
  The same on the bucket: after a run that stored its rule set, a second run with the
  same archive prefixes returns and stores that rule set again.
\<close>

lemma lifecycle_update_twice:
  assumes "\<not> noop a"
    and "lifecycle_update a b archives = (Inr out, b')"
  shows "lifecycle_configuration b' = Some out \<and>
         lifecycle_update a b' archives = (Inr out, b'\<lparr>put_calls := put_calls b' @ [out]\<rparr>)"
proof -
  from assms(2) have "fst (lifecycle_update a b archives) = Inr out" by simp
  from lifecycle_update_Inr[OF this] obtain rules where
    cfg: "lifecycle_configuration b = Some rules" and
    nr: "lifecycle_newrules a rules archives = Inr out"
    by blast
  from assms cfg nr have b': "b' = b\<lparr>lifecycle_configuration := Some out,
      put_calls := put_calls b @ [out]\<rparr>" and ok: "\<not> put_refused b out"
    by (auto simp: lifecycle_update_def lifecycle_put_def split: if_splits)
  from lifecycle_newrules_Inr[OF nr] obtain strs news where
    ar: "archives = map PrefixStr strs" and
    out: "out = filter (preserved a) rules @ news" and
    news: "list_all2 (synthesized a) strs news"
    by blast
  from preserve_rules_of_newrules[OF out news]
    archive_rules_total[OF news, of "filter (preserved a) rules"] ar out
  have "lifecycle_newrules a out archives = Inr out"
    by (simp add: lifecycle_newrules_def)
  with assms(1) b' ok show ?thesis
    by (simp add: lifecycle_update_def lifecycle_put_def)
qed

subsection \<open>The no-op flag\<close>

text \<open>
  Claim C8. Let the bucket's configuration be readable and the rule computation return
  \<open>newrules\<close>. With \<open>noop\<close> set, \<open>lifecycle_update\<close> returns \<open>newrules\<close> and leaves the bucket as
  it was: no \<open>put\<close> is made and the stored configuration is unchanged. With \<open>noop\<close> unset,
  exactly one \<open>put\<close> is made and its argument is \<open>newrules\<close>; when the service accepts it,
  \<open>newrules\<close> is returned and is the stored configuration, and when the service refuses
  it the error is raised and the stored configuration stays.
\<close>

theorem lifecycle_update_noop:
  assumes "plain_pattern a"
    and "lifecycle_configuration b = Some rules"
    and "lifecycle_newrules a rules archives = Inr newrules"
  shows "(noop a \<longrightarrow> lifecycle_update a b archives = (Inr newrules, b)) \<and>
         (\<not> noop a \<longrightarrow>
            put_calls (snd (lifecycle_update a b archives)) = put_calls b @ [newrules] \<and>
            (if put_refused b newrules
             then lifecycle_update a b archives =
                    (Inl ClientError, b\<lparr>put_calls := put_calls b @ [newrules]\<rparr>)
             else lifecycle_update a b archives =
                    (Inr newrules, b\<lparr>lifecycle_configuration := Some newrules,
                                     put_calls := put_calls b @ [newrules]\<rparr>)))"
  using assms(2,3) by (simp add: lifecycle_update_def lifecycle_put_def)

theorem lifecycle_update_noop_witness:
  "plain_pattern noop_args \<and> noop noop_args \<and>
   plain_pattern default_args \<and> \<not> noop default_args \<and>
   lifecycle_configuration example_bucket = Some [foreign_rule, unrelated_rule, stale_rule] \<and>
   lifecycle_newrules noop_args [foreign_rule, unrelated_rule, stale_rule]
     (map PrefixStr example_archives) = Inr example_newrules \<and>
   lifecycle_newrules default_args [foreign_rule, unrelated_rule, stale_rule]
     (map PrefixStr example_archives) = Inr example_newrules \<and>
   lifecycle_update noop_args example_bucket (map PrefixStr example_archives) =
     (Inr example_newrules, example_bucket) \<and>
   \<not> put_refused example_bucket example_newrules \<and>
   lifecycle_update default_args example_bucket (map PrefixStr example_archives) =
     (Inr example_newrules,
      example_bucket\<lparr>lifecycle_configuration := Some example_newrules,
                      put_calls := [example_newrules]\<rparr>)"
proof -
  have cfg: "lifecycle_configuration example_bucket = Some [foreign_rule, unrelated_rule, stale_rule]"
    by (simp add: example_bucket_def)
  have flags: "noop noop_args" "\<not> noop default_args" "\<not> put_refused example_bucket example_newrules"
    "put_calls example_bucket = []"
    by (simp_all add: noop_args_def default_args_def example_bucket_def)
  from lifecycle_update_noop[OF plain_noop_args cfg example_newrules_noop_run] flags(1)
  have a: "lifecycle_update noop_args example_bucket (map PrefixStr example_archives) =
      (Inr example_newrules, example_bucket)" by simp
  from lifecycle_update_noop[OF plain_default_args cfg example_newrules_run] flags(2,3,4)
  have b: "lifecycle_update default_args example_bucket (map PrefixStr example_archives) =
     (Inr example_newrules,
      example_bucket\<lparr>lifecycle_configuration := Some example_newrules,
                      put_calls := [example_newrules]\<rparr>)" by simp
  from a b cfg flags plain_noop_args plain_default_args example_newrules_noop_run
    example_newrules_run
  show ?thesis by simp
qed

subsection \<open>Synthesized rules\<close>

lemma list_all2_synthesized_nth:
  "list_all2 (synthesized a) strs news \<Longrightarrow> i < length strs \<Longrightarrow>
   \<exists>n. archive_match a (strs ! i) = Some n \<and> news ! i = newrule a (strs ! i) n"
  by (auto simp: list_all2_conv_all_nth synthesized_def split: option.splits)

text \<open>
  Claim C7, as the code has it. In a run of \<open>lifecycle_update\<close> that returns a rule set,
  the rule set is the preserved rules followed by one rule for each archive prefix, in
  the order of the archive prefixes. The rule for an archive prefix has the identifier
  made of the configured identifier prefix, a hyphen and the archive name embedded in
  the archive prefix; its filter prefix is the archive prefix; its status is \<open>Enabled\<close>;
  its only transition moves objects to \<open>GLACIER\<close> after the configured number of days;
  it has no other key. The witness is the example of the specification: one archive
  prefix, no existing rule, 60 days.
\<close>

theorem lifecycle_update_synthesizes:
  assumes "plain_pattern a"
    and "lifecycle_configuration b = Some rules"
    and "fst (lifecycle_update a b (map PrefixStr archives)) = Inr out"
  shows "\<exists>kept. preserve_rules a rules [] = Inr kept \<and>
           length out = length kept + length archives \<and>
           take (length kept) out = kept \<and>
           (\<forall>i < length archives. \<exists>archive_name.
              archive_match a (archives ! i) = Some archive_name \<and>
              out ! (length kept + i) =
                \<lparr>ID = Some (lifecycle_id_prefix a @ ''-'' @ archive_name),
                 Filter = Some \<lparr>Prefix = Some (archives ! i), FilterRest = []\<rparr>,
                 Status = ''Enabled'',
                 Transitions =
                   [\<lparr>Days = Some (glacier_days a), StorageClass = ''GLACIER'',
                     TransitionRest = []\<rparr>],
                 RuleRest = []\<rparr>)"
proof -
  from lifecycle_update_Inr[OF assms(3)] assms(2)
  have nr: "lifecycle_newrules a rules (map PrefixStr archives) = Inr out" by auto
  from lifecycle_newrules_Inr[OF nr] obtain strs news where
    ar: "map PrefixStr archives = map PrefixStr strs" and
    out: "out = filter (preserved a) rules @ news" and
    kept: "preserve_rules a rules [] = Inr (filter (preserved a) rules)" and
    news: "list_all2 (synthesized a) strs news"
    by blast
  from ar have strs: "strs = archives"
    by (simp add: inj_on_def)
  from news strs have len: "length news = length archives"
    by (simp add: list_all2_lengthD)
  have "\<exists>n. archive_match a (archives ! i) = Some n \<and>
      out ! (length (filter (preserved a) rules) + i) = newrule a (archives ! i) n"
    if "i < length archives" for i
    using list_all2_synthesized_nth[OF news] that strs out by (simp add: nth_append)
  with kept out len show ?thesis
    by (intro exI[where x = "filter (preserved a) rules"]) (simp add: newrule_def)
qed

theorem lifecycle_update_synthesizes_witness:
  "plain_pattern default_args \<and>
   lifecycle_configuration empty_bucket = Some [] \<and>
   glacier_days default_args = 60 \<and>
   fst (lifecycle_update default_args empty_bucket
          (map PrefixStr [''duplicity/archive/x/archive/''])) =
     Inr [\<lparr>ID = Some ''Duplicity-Auto-Lifecycle-archive/x'',
           Filter = Some \<lparr>Prefix = Some ''duplicity/archive/x/archive/'', FilterRest = []\<rparr>,
           Status = ''Enabled'',
           Transitions = [\<lparr>Days = Some 60, StorageClass = ''GLACIER'', TransitionRest = []\<rparr>],
           RuleRest = []\<rparr>] \<and>
   preserve_rules default_args [] [] = Inr [] \<and>
   archive_match default_args ''duplicity/archive/x/archive/'' = Some ''archive/x'' \<and>
   lifecycle_id_prefix default_args @ ''-'' @ ''archive/x'' = ''Duplicity-Auto-Lifecycle-archive/x''"
proof -
  have cfg: "lifecycle_configuration empty_bucket = Some []"
    by (simp add: empty_bucket_def)
  have run: "fst (lifecycle_update default_args empty_bucket
          (map PrefixStr [''duplicity/archive/x/archive/''])) =
     Inr [\<lparr>ID = Some ''Duplicity-Auto-Lifecycle-archive/x'',
           Filter = Some \<lparr>Prefix = Some ''duplicity/archive/x/archive/'', FilterRest = []\<rparr>,
           Status = ''Enabled'',
           Transitions = [\<lparr>Days = Some 60, StorageClass = ''GLACIER'', TransitionRest = []\<rparr>],
           RuleRest = []\<rparr>]"
    using example_matches(1)[where c = False and n = False]
    by (simp add: lifecycle_update_def lifecycle_newrules_def archive_rule_def newrule_def
        lifecycle_put_def empty_bucket_def default_args_def)
  from lifecycle_update_synthesizes[OF plain_default_args cfg run]
  have "\<exists>archive_name.
      archive_match default_args ''duplicity/archive/x/archive/'' = Some archive_name \<and>
      ID \<lparr>ID = Some ''Duplicity-Auto-Lifecycle-archive/x'',
           Filter = Some \<lparr>Prefix = Some ''duplicity/archive/x/archive/'', FilterRest = []\<rparr>,
           Status = ''Enabled'',
           Transitions = [\<lparr>Days = Some 60, StorageClass = ''GLACIER'', TransitionRest = []\<rparr>],
           RuleRest = []\<rparr> = Some (lifecycle_id_prefix default_args @ ''-'' @ archive_name)"
    by auto
  then have "archive_match default_args ''duplicity/archive/x/archive/'' = Some ''archive/x''"
    by (auto simp: default_args_def)
  with plain_default_args cfg run show ?thesis
    by (simp add: default_args_def)
qed

text \<open>
  The identifier is not the configured identifier prefix directly followed by the
  archive name: a hyphen stands between them.
\<close>

theorem lifecycle_update_synthesizes_counterexample:
  "archive_match default_args ''duplicity/archive/x/archive/'' = Some ''archive/x'' \<and>
   fst (lifecycle_update default_args empty_bucket [PrefixStr ''duplicity/archive/x/archive/'']) =
     Inr [\<lparr>ID = Some ''Duplicity-Auto-Lifecycle-archive/x'',
           Filter = Some \<lparr>Prefix = Some ''duplicity/archive/x/archive/'', FilterRest = []\<rparr>,
           Status = ''Enabled'',
           Transitions = [\<lparr>Days = Some 60, StorageClass = ''GLACIER'', TransitionRest = []\<rparr>],
           RuleRest = []\<rparr>] \<and>
   Some ''Duplicity-Auto-Lifecycle-archive/x'' \<noteq>
     Some (lifecycle_id_prefix default_args @ ''archive/x'')"
  using example_matches(1)[where c = False and n = False]
  by (simp add: lifecycle_update_def lifecycle_newrules_def archive_rule_def newrule_def
      lifecycle_put_def empty_bucket_def default_args_def)

subsection \<open>The rebuilt rule set\<close>

lemma synthesized_ID:
  "synthesized a s r \<Longrightarrow> \<exists>n. archive_match a s = Some n \<and> ID r = Some (lifecycle_id_prefix a @ ''-'' @ n)"
  by (auto simp: synthesized_def newrule_def split: option.splits)

lemma synthesized_same_ID:
  assumes "synthesized a s r" and "synthesized a s' r'" and "ID r = ID r'"
  shows "archive_match a s = archive_match a s'"
  using synthesized_ID[OF assms(1)] synthesized_ID[OF assms(2)] assms(3) by auto

lemma synthesized_distinct_IDs:
  "list_all2 (synthesized a) strs news \<Longrightarrow> distinct (map (archive_match a) strs) \<Longrightarrow>
   distinct (map ID news)"
proof (induction strs news rule: list_all2_induct)
  case Nil
  then show ?case by simp
next
  case (Cons s strs r news)
  have "ID r \<notin> ID ` set news"
  proof
    assume "ID r \<in> ID ` set news"
    then obtain r' where r': "r' \<in> set news" "ID r = ID r'" by auto
    from list_all2_synthesized_set[OF Cons.hyps(2) r'(1)] obtain s' where
      s': "s' \<in> set strs" "synthesized a s' r'" by blast
    from synthesized_same_ID[OF Cons.hyps(1) s'(2) r'(2)] s'(1) Cons.prems show False
      by auto
  qed
  with Cons show ?case by simp
qed

lemma foreign_ID_not_synthesized:
  assumes "foreign a r" and "synthesized a s r'"
  shows "ID r \<noteq> ID r'"
proof
  assume eq: "ID r = ID r'"
  from synthesized_ID[OF assms(2)] obtain n where "ID r' = Some (lifecycle_id_prefix a @ ''-'' @ n)"
    by blast
  with eq assms(1) show False
    by (auto simp: foreign_def split: option.splits)
qed

lemma distinct_filter_eq_length:
  "distinct xs \<Longrightarrow> x \<in> set xs \<Longrightarrow> length (filter (\<lambda>s. s = x) xs) = 1"
  by (induction xs) (auto simp: filter_empty_conv)

lemma synthesized_filter_length:
  "list_all2 (synthesized a) strs news \<Longrightarrow>
   length (filter (\<lambda>r. tool_managed a r \<and> rule_prefix r = Some x) news) =
   length (filter (\<lambda>s. s = x) strs)"
proof (induction strs news rule: list_all2_induct)
  case Nil
  then show ?case by simp
next
  case (Cons s strs r news)
  from synthesized_tool_managed[OF Cons.hyps(1)] synthesized_prefix[OF Cons.hyps(1)] Cons.IH
  show ?case by simp
qed

lemma example_kept:
  "filter (preserved default_args) [foreign_rule, unrelated_rule, stale_rule] =
     [foreign_rule, unrelated_rule]"
  using example_kinds(1,3) tool_managed_not_preserved[OF example_kinds(4)]
  by (simp add: preserved_def default_args_def)

text \<open>
  Claim C1, as the code has it. Take a run of \<open>lifecycle_update\<close> that returns a rule
  set, on archive prefixes whose embedded archive names are pairwise distinct. The rule
  set is the preserved rules (every unrelated rule, and every foreign rule unless \<open>clean\<close>
  is set), in their order, followed by one synthesized rule for each archive prefix; for
  each archive prefix exactly one rule of the rule set is tool-managed and has that
  filter prefix. The synthesized rules have pairwise distinct identifiers, and no
  foreign rule shares an identifier with one of them. When moreover the existing rules
  have pairwise distinct identifiers and no unrelated existing rule carries the
  identifier of a synthesized rule, no two rules of the rule set have the same
  identifier.
\<close>

theorem lifecycle_update_rule_set:
  assumes "plain_pattern a"
    and "lifecycle_configuration b = Some rules"
    and "fst (lifecycle_update a b (map PrefixStr archives)) = Inr out"
    and "distinct (map (archive_match a) archives)"
  shows "\<exists>news. out = filter (preserved a) rules @ news \<and>
           list_all2 (synthesized a) archives news \<and>
           (\<forall>archive \<in> set archives.
              length (filter (\<lambda>r. tool_managed a r \<and> rule_prefix r = Some archive) out) = 1) \<and>
           distinct (map ID news) \<and>
           (\<forall>r \<in> set rules. foreign a r \<longrightarrow> ID r \<notin> ID ` set news) \<and>
           (distinct (map ID rules) \<and> (\<forall>r \<in> set rules. unrelated a r \<longrightarrow> ID r \<notin> ID ` set news)
              \<longrightarrow> distinct (map ID out))"
proof -
  let ?kept = "filter (preserved a) rules"
  from lifecycle_update_Inr[OF assms(3)] assms(2)
  have nr: "lifecycle_newrules a rules (map PrefixStr archives) = Inr out" by auto
  from lifecycle_newrules_Inr[OF nr] obtain strs news where
    ar: "map PrefixStr archives = map PrefixStr strs" and
    out: "out = ?kept @ news" and
    news': "list_all2 (synthesized a) strs news"
    by blast
  from ar have strs: "strs = archives"
    by (simp add: inj_on_def)
  with news' have news: "list_all2 (synthesized a) archives news" by simp
  have one: "length (filter (\<lambda>r. tool_managed a r \<and> rule_prefix r = Some x) out) = 1"
    if x: "x \<in> set archives" for x
  proof -
    have "filter (\<lambda>r. tool_managed a r \<and> rule_prefix r = Some x) ?kept = []"
      using tool_managed_not_preserved by (auto simp: filter_empty_conv)
    moreover from assms(4) have "distinct archives" by (simp add: distinct_map)
    ultimately show ?thesis
      using synthesized_filter_length[OF news, of x] distinct_filter_eq_length[OF _ x] out
      by simp
  qed
  have dn: "distinct (map ID news)"
    using synthesized_distinct_IDs[OF news assms(4)] .
  have fr: "ID r \<notin> ID ` set news" if "foreign a r" for r
  proof
    assume "ID r \<in> ID ` set news"
    then obtain r' where r': "r' \<in> set news" "ID r = ID r'" by auto
    from list_all2_synthesized_set[OF news r'(1)] obtain s where "synthesized a s r'" by blast
    from foreign_ID_not_synthesized[OF that this] r'(2) show False by simp
  qed
  have all: "distinct (map ID out)"
    if d: "distinct (map ID rules)" and u: "\<forall>r \<in> set rules. unrelated a r \<longrightarrow> ID r \<notin> ID ` set news"
  proof -
    from d have "distinct (map ID ?kept)" by (rule distinct_map_filter)
    moreover have "ID r \<notin> ID ` set news" if "r \<in> set ?kept" for r
    proof -
      from that have "r \<in> set rules" "unrelated a r \<or> foreign a r"
        by (auto simp: preserved_def)
      with u fr show ?thesis by blast
    qed
    ultimately show ?thesis using dn out by auto
  qed
  from out news one dn fr all show ?thesis
    by (intro exI[where x = news]) blast
qed


theorem lifecycle_update_rule_set_witness:
  "plain_pattern default_args \<and>
   lifecycle_configuration example_bucket = Some [foreign_rule, unrelated_rule, stale_rule] \<and>
   fst (lifecycle_update default_args example_bucket (map PrefixStr example_archives)) =
     Inr example_newrules \<and>
   distinct (map (archive_match default_args) example_archives) \<and>
   distinct (map ID [foreign_rule, unrelated_rule, stale_rule]) \<and>
   example_newrules =
     filter (preserved default_args) [foreign_rule, unrelated_rule, stale_rule] @
     [newrule default_args ''duplicity/archive/x/archive/'' ''archive/x'',
      newrule default_args ''duplicity/home/archive/'' ''home''] \<and>
   length (filter (\<lambda>r. tool_managed default_args r \<and>
                        rule_prefix r = Some ''duplicity/home/archive/'') example_newrules) = 1 \<and>
   distinct (map ID example_newrules)"
proof -
  let ?synth = "[newrule default_args ''duplicity/archive/x/archive/'' ''archive/x'',
      newrule default_args ''duplicity/home/archive/'' ''home'']"
  have cfg: "lifecycle_configuration example_bucket = Some [foreign_rule, unrelated_rule, stale_rule]"
    by (simp add: example_bucket_def)
  have names: "distinct (map (archive_match default_args) example_archives)"
    using example_matches(1,2)[where c = False and n = False]
    by (simp add: example_archives_def default_args_def)
  have ids: "distinct (map ID [foreign_rule, unrelated_rule, stale_rule])"
    by (simp add: foreign_rule_def unrelated_rule_def stale_rule_def newrule_def default_args_def)
  from lifecycle_update_rule_set[OF plain_default_args cfg example_update_run names]
  obtain news where
    out: "example_newrules =
      filter (preserved default_args) [foreign_rule, unrelated_rule, stale_rule] @ news" and
    one: "\<forall>archive \<in> set example_archives.
      length (filter (\<lambda>r. tool_managed default_args r \<and> rule_prefix r = Some archive)
        example_newrules) = 1" and
    all: "distinct (map ID [foreign_rule, unrelated_rule, stale_rule]) \<and>
      (\<forall>r \<in> set [foreign_rule, unrelated_rule, stale_rule].
         unrelated default_args r \<longrightarrow> ID r \<notin> ID ` set news) \<longrightarrow>
      distinct (map ID example_newrules)"
    by blast
  from out have news: "news = ?synth"
    unfolding example_kept example_newrules_def by simp
  have "\<forall>r \<in> set [foreign_rule, unrelated_rule, stale_rule].
      unrelated default_args r \<longrightarrow> ID r \<notin> ID ` set news"
    by (simp add: news foreign_rule_def unrelated_rule_def stale_rule_def newrule_def
        default_args_def)
  with all ids have d: "distinct (map ID example_newrules)" by blast
  from one have o: "length (filter (\<lambda>r. tool_managed default_args r \<and>
      rule_prefix r = Some ''duplicity/home/archive/'') example_newrules) = 1"
    by (simp add: example_archives_def)
  from out news have e: "example_newrules =
     filter (preserved default_args) [foreign_rule, unrelated_rule, stale_rule] @ ?synth"
    by simp
  from plain_default_args cfg example_update_run names ids e o d show ?thesis
    by blast
qed

text \<open>
  Without the last condition two rules can share an identifier: an unrelated rule is
  carried over whatever its identifier is, also when it is the one the second loop gives
  to a synthesized rule.
\<close>

theorem lifecycle_update_rule_set_counterexample:
  "unrelated default_args moved_rule \<and>
   lifecycle_configuration moved_bucket = Some [moved_rule] \<and>
   archive_match default_args ''duplicity/x/archive/'' = Some ''x'' \<and>
   fst (lifecycle_update default_args moved_bucket (map PrefixStr [''duplicity/x/archive/''])) =
     Inr [moved_rule, newrule default_args ''duplicity/x/archive/'' ''x''] \<and>
   ID moved_rule = Some ''Duplicity-Auto-Lifecycle-x'' \<and>
   ID (newrule default_args ''duplicity/x/archive/'' ''x'') = Some ''Duplicity-Auto-Lifecycle-x'' \<and>
   \<not> distinct (map ID [moved_rule, newrule default_args ''duplicity/x/archive/'' ''x''])"
proof -
  have m: "archive_match default_args ''duplicity/x/archive/'' = Some ''x''"
    "archive_match default_args ''backup/x/archive/'' = None"
    by (simp_all add: archive_match_def default_args_def)
  then show ?thesis
    by (simp add: lifecycle_update_def lifecycle_newrules_def keep_rule_def archive_rule_def
        lifecycle_put_def moved_bucket_def moved_rule_def newrule_def unrelated_def
        rule_prefix_def default_args_def)
qed


section \<open>Properties of the certificate synchronizer\<close>

subsection \<open>The calls made for one certificate name\<close>

lemma iam_delete_cert_shape:
  "iam_delete_cert c s =
     (case delete_error s c of Some e \<Rightarrow> Inl e | None \<Rightarrow> Inr (), s\<lparr>calls := calls s @ [DeleteCert c]\<rparr>)"
  by (simp add: iam_delete_cert_def split: option.splits)

lemma iam_upload_cert_shape:
  "iam_upload_cert c s =
     (case upload_error s c of Some e \<Rightarrow> Inl e | None \<Rightarrow> Inr (), s\<lparr>calls := calls s @ [UploadCert c]\<rparr>)"
  by (simp add: iam_upload_cert_def split: option.splits)

lemma delete_then_upload_cases:
  "delete_then_upload c s = (res, s') \<Longrightarrow>
   (res = Inr () \<and> s' = s\<lparr>calls := calls s @ [DeleteCert c, UploadCert c]\<rparr>) \<or>
   (res \<noteq> Inr () \<and> (s' = s\<lparr>calls := calls s @ [DeleteCert c]\<rparr> \<or>
                      s' = s\<lparr>calls := calls s @ [DeleteCert c, UploadCert c]\<rparr>))"
  by (auto simp: delete_then_upload_def iam_delete_cert_shape iam_upload_cert_shape
      split: option.splits)

lemma iam_upload_cert_cases:
  "iam_upload_cert c s = (res, s') \<Longrightarrow> s' = s\<lparr>calls := calls s @ [UploadCert c]\<rparr>"
  by (auto simp: iam_upload_cert_shape)

lemma replacedate_Inr:
  "replacedate a expiration = Inr d \<Longrightarrow> d = expiration - days a * 86400000000"
  by (auto simp: replacedate_def timedelta_def datetime_sub_def split: if_splits)

lemma sync_cert_alt:
  "sync_cert a clock expires c s =
     (case expires c of
        None \<Rightarrow> iam_upload_cert c s
      | Some expiration \<Rightarrow>
          (case replacedate a expiration of
             Inl e \<Rightarrow> (Inl e, s)
           | Inr d \<Rightarrow> if clock c \<ge> d \<or> force a then delete_then_upload c s else (Inr (), s)))"
  by (auto simp: sync_cert_def split: option.splits sum.splits)

lemma calls_for_append: "calls_for c (xs @ ys) = calls_for c xs @ calls_for c ys"
  by (simp add: calls_for_def)

lemma sync_cert_cases:
  assumes "sync_cert a clock expires c s = (res, s')"
  shows "\<exists>new. s' = s\<lparr>calls := calls s @ new\<rparr> \<and> calls_for c new = new \<and>
      (\<forall>c'. c' \<noteq> c \<longrightarrow> calls_for c' new = []) \<and>
      prefix new (cert_calls a clock expires c) \<and>
      (res = Inr () \<longrightarrow> new = cert_calls a clock expires c)"
proof (cases "expires c")
  case None
  with assms have "s' = s\<lparr>calls := calls s @ [UploadCert c]\<rparr>"
    by (simp add: sync_cert_alt iam_upload_cert_cases)
  with None show ?thesis
    by (intro exI[where x = "[UploadCert c]"]) (simp add: calls_for_def cert_calls_def)
next
  case (Some expiration)
  show ?thesis
  proof (cases "replacedate a expiration")
    case (Inl e)
    with Some assms have "s' = s" "res = Inl e" by (simp_all add: sync_cert_alt)
    then show ?thesis
      by (intro exI[where x = "[]"]) (simp add: calls_for_def)
  next
    case (Inr d)
    from replacedate_Inr[OF Inr] have d: "d = expiration - days a * 86400000000" .
    show ?thesis
    proof (cases "clock c \<ge> d \<or> force a")
      case True
      with d Some have plan: "cert_calls a clock expires c = [DeleteCert c, UploadCert c]"
        by (auto simp: cert_calls_def)
      from True Some Inr assms have "delete_then_upload c s = (res, s')"
        by (simp add: sync_cert_alt)
      from delete_then_upload_cases[OF this] plan show ?thesis
        by (elim disjE conjE)
          ((rule exI[where x = "[DeleteCert c, UploadCert c]"], simp add: calls_for_def; fail) |
           (rule exI[where x = "[DeleteCert c]"], simp add: calls_for_def; fail))+
    next
      case False
      with d Some have plan: "cert_calls a clock expires c = []"
        by (auto simp: cert_calls_def)
      from False Some Inr assms have "s' = s" "res = Inr ()" by (simp_all add: sync_cert_alt)
      with plan show ?thesis
        by (intro exI[where x = "[]"]) (simp add: calls_for_def)
    qed
  qed
qed

lemma sync_certs_calls:
  "sync_certs a clock expires cs s = (res, s') \<Longrightarrow> distinct cs \<Longrightarrow>
   \<exists>new. calls_for c (calls s') = calls_for c (calls s) @ new \<and>
     prefix new (if c \<in> set cs then cert_calls a clock expires c else []) \<and>
     (res = Inr () \<longrightarrow> new = (if c \<in> set cs then cert_calls a clock expires c else []))"
proof (induction cs arbitrary: s)
  case Nil
  then show ?case by simp
next
  case (Cons x cs)
  obtain res1 s1 where step: "sync_cert a clock expires x s = (res1, s1)"
    by (cases "sync_cert a clock expires x s")
  from sync_cert_cases[OF step] obtain new1 where
    new1: "s1 = s\<lparr>calls := calls s @ new1\<rparr>" "calls_for x new1 = new1"
      "\<forall>c'. c' \<noteq> x \<longrightarrow> calls_for c' new1 = []"
      "prefix new1 (cert_calls a clock expires x)"
      "res1 = Inr () \<longrightarrow> new1 = cert_calls a clock expires x"
    by blast
  from new1(1) have c1: "calls_for c (calls s1) = calls_for c (calls s) @ calls_for c new1"
    by (simp add: calls_for_append)
  from Cons.prems(2) have d: "distinct cs" "x \<notin> set cs" by simp_all
  show ?case
  proof (cases res1)
    case (Inl e)
    with step Cons.prems(1) have "s' = s1" "res = Inl e" by simp_all
    with c1 new1 show ?thesis
      by (cases "c = x") auto
  next
    case (Inr u)
    with step Cons.prems(1) have rest: "sync_certs a clock expires cs s1 = (res, s')" by simp
    from Cons.IH[OF rest d(1)] obtain new where
      new: "calls_for c (calls s') = calls_for c (calls s1) @ new"
        "prefix new (if c \<in> set cs then cert_calls a clock expires c else [])"
        "res = Inr () \<longrightarrow> new = (if c \<in> set cs then cert_calls a clock expires c else [])"
      by blast
    from Inr new1(5) have full: "new1 = cert_calls a clock expires x" by simp
    show ?thesis
    proof (cases "c = x")
      case True
      with d(2) new(2) have "new = []" by simp
      with True new(1) c1 new1(2) full show ?thesis by simp
    next
      case False
      with new1(3) c1 have "calls_for c (calls s1) = calls_for c (calls s)" by simp
      with False new show ?thesis by simp
    qed
  qed
qed

lemma letsencrypt_certnames_subset:
  "set (letsencrypt_certnames entries) \<subseteq> entry_name ` set entries"
  by (induction entries) auto

lemma letsencrypt_certnames_distinct:
  "distinct (map entry_name entries) \<Longrightarrow> distinct (letsencrypt_certnames entries)"
  using letsencrypt_certnames_subset by (induction entries) auto

lemma iam_sync_certs_calls:
  assumes "iam_sync_certs a h s = (res, s')"
    and "live h = Some entries"
    and "distinct (map entry_name entries)"
    and "certificate_expirations (list_server_certificates s) None = Inr expires"
    and "certname \<in> set (letsencrypt_certnames entries)"
  shows "\<exists>new. calls_for certname (calls s') = calls_for certname (calls s) @ new \<and>
           prefix new (cert_calls a (now h) expires certname) \<and>
           (res = Inr () \<longrightarrow> new = cert_calls a (now h) expires certname)"
proof -
  from assms(1,2,4) have "sync_certs a (now h) expires (letsencrypt_certnames entries) s = (res, s')"
    by (simp add: iam_sync_certs_def)
  from sync_certs_calls[OF this letsencrypt_certnames_distinct[OF assms(3)], of certname] assms(5)
  show ?thesis by simp
qed

subsection \<open>The example, evaluated\<close>

lemma example_certnames:
  "letsencrypt_certnames example_entries = [''a.example.org'', ''b.example.org'', ''c.example.org'']"
  by (simp add: example_entries_def)

lemma example_entries_distinct: "distinct (map entry_name example_entries)"
  by (simp add: example_entries_def)

lemma example_expirations:
  "certificate_expirations (list_server_certificates example_iam) None = Inr example_expires"
  by (simp add: certificate_expirations_def Let_def example_iam_def example_expires_def)

lemma boundary_expirations:
  "certificate_expirations (list_server_certificates boundary_iam) None =
     Inr [''a.example.org'' \<mapsto> example_now + 30 * 86400000000]"
  by (simp add: certificate_expirations_def Let_def boundary_iam_def)

lemma example_sync_run:
  "iam_sync_certs example_sync_args example_host example_iam =
     (Inr (), example_iam\<lparr>calls := [DeleteCert ''a.example.org'', UploadCert ''a.example.org'',
                                     UploadCert ''b.example.org'']\<rparr>)"
proof -
  have "iam_sync_certs example_sync_args example_host example_iam =
      sync_certs example_sync_args (\<lambda>certname. example_now) example_expires
        [''a.example.org'', ''b.example.org'', ''c.example.org''] example_iam"
    by (simp add: iam_sync_certs_def example_host_def example_certnames example_expirations)
  also have "\<dots> = (Inr (), example_iam\<lparr>calls := [DeleteCert ''a.example.org'',
      UploadCert ''a.example.org'', UploadCert ''b.example.org'']\<rparr>)"
    by (simp add: example_expires_def sync_cert_def replacedate_def timedelta_def
        datetime_sub_def delete_then_upload_def iam_delete_cert_def iam_upload_cert_def
        example_sync_args_def example_now_def example_iam_def)
  finally show ?thesis .
qed

subsection \<open>Certificates the store holds\<close>

text \<open>
  Claim C4, as the code has it. Take a certificate name that \<open>letsencrypt_certnames\<close>
  yields and that the map of remote expirations holds. In a run of \<open>iam_sync_certs\<close> that
  returns, if the expiration minus the current time is at most the window of \<open>days\<close>
  days, the calls made for the name are a delete followed by an upload. In every run,
  if the expiration minus the current time is more than the window and \<open>force\<close> is not
  set, no call is made for the name.
\<close>

theorem iam_sync_certs_replacement:
  assumes "iam_sync_certs a h s = (res, s')"
    and "live h = Some entries"
    and "distinct (map entry_name entries)"
    and "certificate_expirations (list_server_certificates s) None = Inr expires"
    and "certname \<in> set (letsencrypt_certnames entries)"
    and "expires certname = Some expiration"
  shows "(res = Inr () \<and> expiration - now h certname \<le> days a * 86400000000 \<longrightarrow>
            calls_for certname (calls s') =
              calls_for certname (calls s) @ [DeleteCert certname, UploadCert certname]) \<and>
         (days a * 86400000000 < expiration - now h certname \<and> \<not> force a \<longrightarrow>
            calls_for certname (calls s') = calls_for certname (calls s))"
  using iam_sync_certs_calls[OF assms(1-5)] assms(6)
  by (auto simp: cert_calls_def)

theorem iam_sync_certs_replacement_witness:
  "iam_sync_certs example_sync_args example_host example_iam =
     (Inr (), example_iam\<lparr>calls := [DeleteCert ''a.example.org'', UploadCert ''a.example.org'',
                                     UploadCert ''b.example.org'']\<rparr>) \<and>
   live example_host = Some example_entries \<and>
   distinct (map entry_name example_entries) \<and>
   certificate_expirations (list_server_certificates example_iam) None = Inr example_expires \<and>
   ''a.example.org'' \<in> set (letsencrypt_certnames example_entries) \<and>
   example_expires ''a.example.org'' = Some (example_now + 10 * 86400000000) \<and>
   (example_now + 10 * 86400000000) - now example_host ''a.example.org''
     \<le> days example_sync_args * 86400000000 \<and>
   calls_for ''a.example.org''
     [DeleteCert ''a.example.org'', UploadCert ''a.example.org'', UploadCert ''b.example.org''] =
     [DeleteCert ''a.example.org'', UploadCert ''a.example.org''] \<and>
   ''c.example.org'' \<in> set (letsencrypt_certnames example_entries) \<and>
   example_expires ''c.example.org'' = Some (example_now + 90 * 86400000000) \<and>
   days example_sync_args * 86400000000
     < (example_now + 90 * 86400000000) - now example_host ''c.example.org'' \<and>
   \<not> force example_sync_args \<and>
   calls_for ''c.example.org''
     [DeleteCert ''a.example.org'', UploadCert ''a.example.org'', UploadCert ''b.example.org''] = []"
proof -
  have h: "live example_host = Some example_entries"
    by (simp add: example_host_def)
  have a: "''a.example.org'' \<in> set (letsencrypt_certnames example_entries)"
      "example_expires ''a.example.org'' = Some (example_now + 10 * 86400000000)"
      "(example_now + 10 * 86400000000) - now example_host ''a.example.org''
         \<le> days example_sync_args * 86400000000"
    by (simp_all add: example_certnames example_expires_def example_host_def
        example_sync_args_def)
  have c: "''c.example.org'' \<in> set (letsencrypt_certnames example_entries)"
      "example_expires ''c.example.org'' = Some (example_now + 90 * 86400000000)"
      "days example_sync_args * 86400000000
         < (example_now + 90 * 86400000000) - now example_host ''c.example.org''"
      "\<not> force example_sync_args"
    by (simp_all add: example_certnames example_expires_def example_host_def
        example_sync_args_def)
  from iam_sync_certs_replacement[OF example_sync_run h example_entries_distinct
      example_expirations a(1,2)] a(3)
  have ra: "calls_for ''a.example.org''
     [DeleteCert ''a.example.org'', UploadCert ''a.example.org'', UploadCert ''b.example.org''] =
     [DeleteCert ''a.example.org'', UploadCert ''a.example.org'']"
    by (simp add: example_iam_def calls_for_def)
  from iam_sync_certs_replacement[OF example_sync_run h example_entries_distinct
      example_expirations c(1,2)] c(3,4)
  have rc: "calls_for ''c.example.org''
     [DeleteCert ''a.example.org'', UploadCert ''a.example.org'', UploadCert ''b.example.org''] = []"
    by (simp add: example_iam_def calls_for_def)
  from example_sync_run h example_entries_distinct example_expirations a c ra rc
  show ?thesis by blast
qed

text \<open>
  At an expiration exactly the window away, with \<open>force\<close> unset, the certificate is
  deleted and uploaded: the test in the code is \<open>now >= replacedate\<close>.
\<close>

theorem iam_sync_certs_replacement_counterexample:
  "letsencrypt_certnames example_entries = [''a.example.org'', ''b.example.org'', ''c.example.org''] \<and>
   certificate_expirations (list_server_certificates boundary_iam) None =
     Inr [''a.example.org'' \<mapsto> example_now + 30 * 86400000000] \<and>
   (example_now + 30 * 86400000000) - now example_host ''a.example.org''
     \<ge> days example_sync_args * 86400000000 \<and>
   \<not> force example_sync_args \<and>
   iam_sync_certs example_sync_args example_host boundary_iam =
     (Inr (), boundary_iam\<lparr>calls := [DeleteCert ''a.example.org'', UploadCert ''a.example.org'',
                                      UploadCert ''b.example.org'', UploadCert ''c.example.org'']\<rparr>)"
proof -
  have "iam_sync_certs example_sync_args example_host boundary_iam =
      sync_certs example_sync_args (\<lambda>certname. example_now)
        [''a.example.org'' \<mapsto> example_now + 30 * 86400000000]
        [''a.example.org'', ''b.example.org'', ''c.example.org''] boundary_iam"
    by (simp add: iam_sync_certs_def example_host_def example_certnames boundary_expirations)
  also have "\<dots> = (Inr (), boundary_iam\<lparr>calls := [DeleteCert ''a.example.org'',
      UploadCert ''a.example.org'', UploadCert ''b.example.org'', UploadCert ''c.example.org'']\<rparr>)"
    by (simp add: sync_cert_def replacedate_def timedelta_def datetime_sub_def
        delete_then_upload_def iam_delete_cert_def iam_upload_cert_def example_sync_args_def
        example_now_def boundary_iam_def)
  finally have run: "iam_sync_certs example_sync_args example_host boundary_iam =
      (Inr (), boundary_iam\<lparr>calls := [DeleteCert ''a.example.org'',
      UploadCert ''a.example.org'', UploadCert ''b.example.org'', UploadCert ''c.example.org'']\<rparr>)" .
  have "(example_now + 30 * 86400000000) - now example_host ''a.example.org''
     \<ge> days example_sync_args * 86400000000" "\<not> force example_sync_args"
    by (simp_all add: example_host_def example_sync_args_def)
  with run example_certnames boundary_expirations show ?thesis by blast
qed

subsection \<open>Certificates the store does not hold\<close>

text \<open>
  Claim C9. Take a certificate name that \<open>letsencrypt_certnames\<close> yields and that the map
  of remote expirations does not hold. In a run of \<open>iam_sync_certs\<close> that returns, the
  calls made for the name are exactly one upload. In every run, returned or cut short
  by an exception, the calls made for the name are none or one upload, so no delete is
  made for it. Nothing is assumed of \<open>force\<close>.
\<close>

theorem iam_sync_certs_absent:
  assumes "iam_sync_certs a h s = (res, s')"
    and "live h = Some entries"
    and "distinct (map entry_name entries)"
    and "certificate_expirations (list_server_certificates s) None = Inr expires"
    and "certname \<in> set (letsencrypt_certnames entries)"
    and "expires certname = None"
  shows "(res = Inr () \<longrightarrow>
            calls_for certname (calls s') = calls_for certname (calls s) @ [UploadCert certname]) \<and>
         (calls_for certname (calls s') = calls_for certname (calls s) \<or>
          calls_for certname (calls s') = calls_for certname (calls s) @ [UploadCert certname])"
proof -
  from iam_sync_certs_calls[OF assms(1-5)] assms(6) obtain new where
    new: "calls_for certname (calls s') = calls_for certname (calls s) @ new"
      "prefix new [UploadCert certname]" "res = Inr () \<longrightarrow> new = [UploadCert certname]"
    by (auto simp: cert_calls_def)
  from new(2) have "new = [] \<or> new = [UploadCert certname]"
    by (cases new) (auto simp: prefix_Cons)
  with new show ?thesis by auto
qed


theorem iam_sync_certs_absent_witness:
  "iam_sync_certs example_sync_args example_host example_iam =
     (Inr (), example_iam\<lparr>calls := [DeleteCert ''a.example.org'', UploadCert ''a.example.org'',
                                     UploadCert ''b.example.org'']\<rparr>) \<and>
   live example_host = Some example_entries \<and>
   distinct (map entry_name example_entries) \<and>
   certificate_expirations (list_server_certificates example_iam) None = Inr example_expires \<and>
   ''b.example.org'' \<in> set (letsencrypt_certnames example_entries) \<and>
   example_expires ''b.example.org'' = None \<and>
   calls_for ''b.example.org''
     [DeleteCert ''a.example.org'', UploadCert ''a.example.org'', UploadCert ''b.example.org''] =
     [UploadCert ''b.example.org'']"
proof -
  have h: "live example_host = Some example_entries"
    by (simp add: example_host_def)
  have b: "''b.example.org'' \<in> set (letsencrypt_certnames example_entries)"
      "example_expires ''b.example.org'' = None"
    by (simp_all add: example_certnames example_expires_def)
  from iam_sync_certs_absent[OF example_sync_run h example_entries_distinct
      example_expirations b]
  have rb: "calls_for ''b.example.org''
     [DeleteCert ''a.example.org'', UploadCert ''a.example.org'', UploadCert ''b.example.org''] =
     [UploadCert ''b.example.org'']"
    by (simp add: example_iam_def calls_for_def)
  from example_sync_run h example_entries_distinct example_expirations b rb
  show ?thesis by blast
qed

subsection \<open>Paginated listings\<close>

lemma certificate_expirations_marker:
  assumes "list_certs (case marker of None \<Rightarrow> None | Some m \<Rightarrow> if m = [] then None else Some m)
             = Inr response"
    and "Marker response = Some m'"
  shows "certificate_expirations list_certs marker = Inl NameError"
  using assms by (simp add: certificate_expirations_def Let_def)

lemma fold_expires_dom:
  "dom (fold (\<lambda>certdata expires. expires(ServerCertificateName certdata \<mapsto> Expiration certdata))
          cs m) = dom m \<union> ServerCertificateName ` set cs"
  by (induction cs arbitrary: m) auto

lemma certificate_expirations_one_page:
  assumes "list_certs (case marker of None \<Rightarrow> None | Some m \<Rightarrow> if m = [] then None else Some m)
             = Inr response"
    and "Marker response = None"
  shows "\<exists>expires. certificate_expirations list_certs marker = Inr expires \<and>
           dom expires = ServerCertificateName ` set (ServerCertificateMetadataList response)"
  using assms by (simp add: certificate_expirations_def Let_def fold_expires_dom)

text \<open>
  Claim C5 does not hold of the code. On a listing of two pages the first answer carries
  a \<open>Marker\<close>, and \<open>certificate_expirations\<close> then raises \<open>NameError\<close>: it calls
  \<open>list_certificates\<close>, a name the module never defines, where it means to call itself.
  No map is returned, so the certificate of the second page is not in it.
\<close>

theorem certificate_expirations_two_pages:
  "certificate_expirations two_page_listing None = Inl NameError"
  by (simp add: certificate_expirations_def Let_def two_page_listing_def)

lemma archives_in_bucket_one_page:
  assumes "s3 (case token of None \<Rightarrow> None | Some t \<Rightarrow> if t = [] then None else Some t) = Inr objects"
    and "CommonPrefixes objects = Some plists"
    and "NextContinuationToken objects = None"
  shows "archives_in_bucket s3 token = Some (Inr (map PrefixStr plists))"
  using assms by (subst archives_in_bucket.simps) simp

lemma archives_in_bucket_continued:
  assumes "s3 (case token of None \<Rightarrow> None | Some t \<Rightarrow> if t = [] then None else Some t) = Inr objects"
    and "CommonPrefixes objects = Some plists"
    and "NextContinuationToken objects = Some next_token"
    and "archives_in_bucket s3 (Some next_token) = Some (Inr nested)"
  shows "archives_in_bucket s3 token = Some (Inr (map PrefixStr plists @ [PrefixList nested]))"
  using assms by (subst archives_in_bucket.simps) simp

text \<open>
  Claim C6 does not hold of the code. On a listing of two pages \<open>archives_in_bucket\<close>
  appends the list of the second page as one element (\<open>prefixes.append\<close> of the recursive
  call's result): the result is not the flat list of both pages' prefixes, its last
  element is a list, and \<open>lifecycle_update\<close> raises \<open>TypeError\<close> when it reaches it.
\<close>

theorem archives_in_bucket_two_pages:
  "archives_in_bucket two_page_bucket None =
     Some (Inr [PrefixStr ''duplicity/a/archive/'', PrefixList [PrefixStr ''duplicity/b/archive/'']]) \<and>
   archives_in_bucket two_page_bucket None \<noteq>
     Some (Inr (map PrefixStr [''duplicity/a/archive/'', ''duplicity/b/archive/''])) \<and>
   lifecycle_newrules default_args []
     [PrefixStr ''duplicity/a/archive/'', PrefixList [PrefixStr ''duplicity/b/archive/'']] =
     Inl TypeError"
proof -
  have second: "archives_in_bucket two_page_bucket (Some ''page2'') =
      Some (Inr (map PrefixStr [''duplicity/b/archive/'']))"
    by (subst archives_in_bucket.simps) (simp add: two_page_bucket_def)
  have first: "archives_in_bucket two_page_bucket None =
      Some (Inr (map PrefixStr [''duplicity/a/archive/''] @
        [PrefixList (map PrefixStr [''duplicity/b/archive/''])]))"
    by (subst archives_in_bucket.simps) (simp add: two_page_bucket_def second)
  have "archive_match default_args ''duplicity/a/archive/'' = Some ''a''"
    by (simp add: archive_match_def default_args_def)
  then have "lifecycle_newrules default_args []
     [PrefixStr ''duplicity/a/archive/'', PrefixList [PrefixStr ''duplicity/b/archive/'']] =
     Inl TypeError"
    by (simp add: lifecycle_newrules_def archive_rule_def)
  with first show ?thesis by simp
qed

end
